theory Spec2Isabelle
  imports Complex_Main
begin

section \<open>Data model\<close>

text \<open>
  A DataArray is followed at one spatial point: a list of values along the time axis.
  A float is a real number or the missing marker NaN (\<open>None\<close>); rounding and the
  infinities of IEEE arithmetic are not modelled. The time coordinate is kept as what the
  code reads from it: the label of the resampling period each timestamp falls in
  (\<open>resample(time=freq)\<close>), or its day of the year (\<open>time.dayofyear\<close>).
\<close>

type_synonym float = "real option"

definition K2C :: real where
  "K2C = 273.15"

text \<open>Comparisons of numpy: any comparison with NaN is False.\<close>

fun gt :: "float \<Rightarrow> real \<Rightarrow> bool" where
  "gt None k = False"
| "gt (Some x) k = (k < x)"

fun lt :: "float \<Rightarrow> real \<Rightarrow> bool" where
  "lt None k = False"
| "lt (Some x) k = (x < k)"

subsection \<open>Resampling\<close>

text \<open>
  \<open>resample(time=freq)\<close> groups the entries of a series by period. The timestamps
  increase, so the entries of one period are consecutive; \<open>resample\<close> takes the
  series as (period label, value) pairs and returns each period with its slice.
\<close>

fun resample :: "(nat \<times> 'a) list \<Rightarrow> (nat \<times> 'a list) list" where
  "resample [] = []"
| "resample ((l, x) # rest) =
     (case resample rest of
        [] \<Rightarrow> [(l, [x])]
      | (l', xs) # gs \<Rightarrow> if l' = l then (l, x # xs) # gs else (l, [x]) # (l', xs) # gs)"

text \<open>\<open>max(dim='time')\<close> on floats skips NaN; a slice with no value gives NaN.\<close>

fun nanmax :: "int option list \<Rightarrow> int option" where
  "nanmax [] = None"
| "nanmax (None # xs) = nanmax xs"
| "nanmax (Some x # xs) = (case nanmax xs of None \<Rightarrow> Some x | Some m \<Rightarrow> Some (max x m))"

section \<open>Run lengths (module run_length)\<close>

text \<open>
  Modelled from the spec: the module \<open>run_length\<close> (imported as \<open>rl\<close>) is not among
  the source files. The spec's RunLengthAnalyzer scans a boolean sequence once from the
  left and produces its maximal runs of True, each with start index and length; the open
  run is carried along the scan.
\<close>

record run =
  run_start :: nat
  run_len :: nat

fun scan_runs :: "nat \<Rightarrow> run option \<Rightarrow> bool list \<Rightarrow> run list" where
  "scan_runs i None [] = []"
| "scan_runs i (Some r) [] = [r]"
| "scan_runs i None (b # bs) =
     (if b then scan_runs (Suc i) (Some \<lparr>run_start = i, run_len = 1\<rparr>) bs
      else scan_runs (Suc i) None bs)"
| "scan_runs i (Some r) (b # bs) =
     (if b then scan_runs (Suc i) (Some (r\<lparr>run_len := Suc (run_len r)\<rparr>)) bs
      else r # scan_runs (Suc i) None bs)"

definition runs :: "bool list \<Rightarrow> run list" where
  "runs arr = scan_runs 0 None arr"

text \<open>
  Modelled from the spec: \<open>longest_run()\<close> is the length of the run with maximum
  length, or 0 if no runs exist.
\<close>

definition longest_run :: "bool list \<Rightarrow> nat" where
  "longest_run arr = fold max (map run_len (runs arr)) 0"

text \<open>The length of the run that is open at a point of the scan, 0 when none is.\<close>

fun open_len :: "run option \<Rightarrow> nat" where
  "open_len None = 0"
| "open_len (Some r) = run_len r"

text \<open>
  Modelled from the spec: \<open>run_day_count(window)\<close>, the sum of the lengths of the runs
  whose length is at least \<open>window\<close>, which is what \<open>rl.windowed_run_count\<close> is called
  for (the number of days that are part of a heat wave). \<open>window \<le> 0\<close> is a contract
  violation.
\<close>

datatype error = ValueError | ContractViolation | NotImplementedError

definition windowed_run_count :: "int \<Rightarrow> bool list \<Rightarrow> error + nat" where
  "windowed_run_count window arr =
     (if window \<le> 0 then Inl ContractViolation
      else Inr (sum_list (filter (\<lambda>l. window \<le> int l) (map run_len (runs arr)))))"

section \<open>indices.py\<close>

subsection \<open>CFD\<close>

text \<open>\<open>ind.where(cond)\<close>: the index where the condition holds, NaN elsewhere.\<close>

definition where_cond :: "int list \<Rightarrow> bool list \<Rightarrow> int option list" where
  "where_cond ind cond = map (\<lambda>(i, c). if c then Some i else None) (zip ind cond)"

text \<open>\<open>bfill(dim='time')\<close>: a NaN takes the next valid value; trailing NaNs stay.\<close>

fun bfill :: "int option list \<Rightarrow> int option list" where
  "bfill [] = []"
| "bfill (Some x # xs) = Some x # bfill xs"
| "bfill (None # xs) = (case bfill xs of [] \<Rightarrow> [None] | y # ys \<Rightarrow> y # y # ys)"

text \<open>
  \<open>diff(dim='time')\<close>: each entry minus the one before it; the result has one entry
  less and keeps the later timestamp of each pair. NaN propagates.
\<close>

fun nan_minus :: "int option \<Rightarrow> int option \<Rightarrow> int option" where
  "nan_minus (Some a) (Some b) = Some (a - b)"
| "nan_minus _ _ = None"

fun diff :: "int option list \<Rightarrow> int option list" where
  "diff (x # y # ys) = nan_minus y x # diff (y # ys)"
| "diff _ = []"

text \<open>
  \<open>CFD time tasmin\<close>: \<open>time\<close> holds the period label of each timestamp, \<open>tasmin\<close>
  the daily minimum temperature in K. The result is one entry per period that has a
  timestamp of the differenced series. The series has at least two timestamps (on a
  shorter one the differenced series is empty and the resampling raises).
\<close>

definition CFD :: "nat list \<Rightarrow> float list \<Rightarrow> (nat \<times> int option) list" where
  "CFD time tasmin =
     (let ind = map int [0..<length tasmin];
          d = where_cond ind (map (\<lambda>t. gt t K2C) tasmin);
          b = bfill d;
          d' = map (\<lambda>x. nan_minus x (Some 1)) (diff b)
      in map (\<lambda>(l, xs). (l, nanmax xs)) (resample (zip (tl time) d')))"

subsection \<open>CFD2\<close>

definition CFD2 :: "nat list \<Rightarrow> float list \<Rightarrow> (nat \<times> nat) list" where
  "CFD2 time tasmin =
     (let f = map (\<lambda>t. lt t K2C) tasmin;
          group = resample (zip time f)
      in map (\<lambda>(l, x). (l, longest_run x)) group)"

subsection \<open>CSI and HWI\<close>

text \<open>
  The inner \<open>func\<close> of \<open>HWI\<close> and \<open>CSI\<close> calls \<open>xr.apply_ufunc\<close> on the slice of
  one period and has no \<open>return\<close> statement: when the call does not raise, the value of
  \<open>func\<close> is Python's \<open>None\<close>, modelled as \<open>None\<close> of the option type. \<open>HWI\<close> and
  \<open>CSI\<close> give, for each period, what \<open>group.apply\<close> receives from \<open>func\<close>;
  xarray cannot combine \<open>None\<close> results and ends the call with an AttributeError, so
  the caller gets no array.
\<close>

definition windowed_func :: "int \<Rightarrow> bool list \<Rightarrow> error + nat option" where
  "windowed_func window x =
     (case windowed_run_count window x of Inl e \<Rightarrow> Inl e | Inr _ \<Rightarrow> Inr None)"

definition HWI :: "nat list \<Rightarrow> float list \<Rightarrow> real \<Rightarrow> int \<Rightarrow> (nat \<times> (error + nat option)) list" where
  "HWI time tasmax thresh window =
     (let over = map (\<lambda>t. gt t (K2C + thresh)) tasmax;
          group = resample (zip time over)
      in map (\<lambda>(l, x). (l, windowed_func window x)) group)"

definition CSI :: "nat list \<Rightarrow> float list \<Rightarrow> real \<Rightarrow> int \<Rightarrow> (nat \<times> (error + nat option)) list" where
  "CSI time tas thresh window =
     (let over = map (\<lambda>t. lt t (K2C + thresh)) tas;
          group = resample (zip time over)
      in map (\<lambda>(l, x). (l, windowed_func window x)) group)"

subsection \<open>percentile_doy\<close>

text \<open>
  \<open>rolling(1, center=True, time=window).construct('window')\<close>: the series is padded
  with NaN, \<open>int(window / 2)\<close> entries in front and \<open>window - 1 - int(window / 2)\<close>
  behind, and row \<open>i\<close> of the result holds the \<open>window\<close> entries of the padded series
  from position \<open>i\<close> on. The window slides along the time axis by position.
\<close>

definition rolling_construct :: "float list \<Rightarrow> nat \<Rightarrow> float list list" where
  "rolling_construct arr window =
     (let start = window div 2;
          stop = window - 1 - start;
          padded = replicate start None @ arr @ replicate stop None
      in map (\<lambda>i. take window (drop i padded)) [0..<length arr])"

text \<open>
  \<open>groupby('time.dayofyear')\<close>: one group per day of the year that occurs in the time
  coordinate, in increasing order, holding the rows whose timestamp has that day of the
  year. \<open>doy\<close> is the day of the year of each timestamp.
\<close>

definition groupby :: "nat list \<Rightarrow> 'a list \<Rightarrow> (nat \<times> 'a list) list" where
  "groupby doy rows =
     map (\<lambda>d. (d, map snd (filter (\<lambda>(k, r). k = d) (zip doy rows)))) (sort (remdups doy))"

fun valid :: "float list \<Rightarrow> real list" where
  "valid [] = []"
| "valid (None # xs) = valid xs"
| "valid (Some x # xs) = x # valid xs"

text \<open>
  \<open>quantile(per, dim=('time', 'window'))\<close> is numpy's \<open>nanpercentile\<close> of \<open>100 * per\<close>
  with linear interpolation: a percentile outside \<open>[0, 100]\<close> raises ValueError; NaN
  entries are dropped; with no entry left the result is NaN; otherwise the sorted entries
  are read at the position \<open>per * (n - 1)\<close>, interpolating between its two neighbours.
\<close>

definition quantile :: "real \<Rightarrow> float list \<Rightarrow> error + float" where
  "quantile per a =
     (if per < 0 \<or> 1 < per then Inl ValueError
      else let s = sort (valid a); n = length s
           in if n = 0 then Inr None
              else let h = per * real (n - 1);
                       lo = nat \<lfloor>h\<rfloor>;
                       hi = min (lo + 1) (n - 1)
                   in Inr (Some (s ! lo + (h - real lo) * (s ! hi - s ! lo))))"

text \<open>\<open>p.loc[{'dayofyear': doy}] = q\<close>: the entry of the table at \<open>doy\<close> is replaced.\<close>

definition set_loc :: "(nat \<times> float) list \<Rightarrow> nat \<Rightarrow> float \<Rightarrow> (nat \<times> float) list" where
  "set_loc p doy q = map (\<lambda>(k, v). if k = doy then (k, q) else (k, v)) p"

text \<open>The \<open>for\<close> loop over the groups; an error of \<open>quantile\<close> ends it.\<close>

fun percentile_loop ::
  "real \<Rightarrow> (nat \<times> float list list) list \<Rightarrow> (nat \<times> float) list \<Rightarrow> error + (nat \<times> float) list" where
  "percentile_loop per [] p = Inr p"
| "percentile_loop per ((doy, ind) # gs) p =
     (case quantile per (concat ind) of
        Inl e \<Rightarrow> Inl e
      | Inr q \<Rightarrow> percentile_loop per gs (set_loc p doy q))"

text \<open>
  \<open>percentile_doy doy arr window per\<close>: \<open>doy\<close> is the day of the year of each
  timestamp of \<open>arr\<close>. xarray's \<open>rolling\<close> raises ValueError for a window that is not
  positive, and \<open>construct\<close> raises ValueError on an empty series (the window is too
  long for it). The table has one entry per day of the year of the time coordinate.
\<close>

definition percentile_doy ::
  "nat list \<Rightarrow> float list \<Rightarrow> int \<Rightarrow> real \<Rightarrow> error + (nat \<times> float) list" where
  "percentile_doy doy arr window per =
     (if window \<le> 0 then Inl ValueError
      else if arr = [] then Inl ValueError
      else let rr = rolling_construct arr (nat window);
               g = groupby doy rr;
               c = map (\<lambda>(d, ind). (d, length (valid (concat ind)))) g;
               p = map (\<lambda>(d, n). (d, None :: float)) c
           in percentile_loop per g p)"

section \<open>indices/_conversion.py\<close>

text \<open>
  The functions of this module work entry by entry on arrays that share their
  coordinates: an array is a function from a coordinate to a float. Unit conversion
  (\<open>convert_units_to\<close>) belongs to another module: the arrays and thresholds are taken
  in the units the function converts them to.
\<close>

type_synonym 'i data_array = "'i \<Rightarrow> float"

definition xr_where :: "bool \<Rightarrow> float \<Rightarrow> float \<Rightarrow> float" where
  "xr_where c x y = (if c then x else y)"

fun le :: "float \<Rightarrow> real \<Rightarrow> bool" where
  "le None k = False"
| "le (Some x) k = (x \<le> k)"

fun ge :: "float \<Rightarrow> real \<Rightarrow> bool" where
  "ge None k = False"
| "ge (Some x) k = (k \<le> x)"

text \<open>
  Arithmetic with NaN: an operation on NaN gives NaN. A division by zero and the
  logarithm of a number that is not positive give no real number, so the model gives the
  missing marker there.
\<close>

fun lift2 :: "(real \<Rightarrow> real \<Rightarrow> real) \<Rightarrow> float \<Rightarrow> float \<Rightarrow> float" where
  "lift2 f (Some x) (Some y) = Some (f x y)"
| "lift2 f _ _ = None"

definition divide_nan :: "real \<Rightarrow> real \<Rightarrow> float" where
  "divide_nan x y = (if y = 0 then None else Some (x / y))"

definition log_nan :: "real \<Rightarrow> float" where
  "log_nan x = (if x \<le> 0 then None else Some (ln x))"

definition log10_nan :: "real \<Rightarrow> float" where
  "log10_nan x = (if x \<le> 0 then None else Some (log 10 x))"

subsection \<open>uas_vas_2_sfcwind\<close>

definition hypot :: "real \<Rightarrow> real \<Rightarrow> real" where
  "hypot x y = sqrt (x\<^sup>2 + y\<^sup>2)"

text \<open>\<open>np.arctan2(y, x)\<close>: the angle of the point \<open>(x, y)\<close>, in \<open>(-pi, pi]\<close>.\<close>

definition arctan2 :: "real \<Rightarrow> real \<Rightarrow> real" where
  "arctan2 y x =
     (if 0 < x then arctan (y / x)
      else if x < 0 \<and> 0 \<le> y then arctan (y / x) + pi
      else if x < 0 then arctan (y / x) - pi
      else if 0 < y then pi / 2
      else if y < 0 then - pi / 2
      else 0)"

definition degrees :: "real \<Rightarrow> real" where
  "degrees x = x * 180 / pi"

text \<open>Python's \<open>%\<close> on floats, for a positive modulus: the result is in \<open>[0, m)\<close>.\<close>

definition float_mod :: "real \<Rightarrow> real \<Rightarrow> real" where
  "float_mod x m = x - m * of_int \<lfloor>x / m\<rfloor>"

text \<open>\<open>round()\<close> of numpy rounds to the nearest integer, a half to the even one.\<close>

definition np_round :: "real \<Rightarrow> int" where
  "np_round x =
     (let f = \<lfloor>x\<rfloor>
      in if x - of_int f < 1 / 2 then f
         else if 1 / 2 < x - of_int f then f + 1
         else if even f then f else f + 1)"

text \<open>
  \<open>uas_vas_2_sfcwind uas vas wind_thresh\<close>, with the components and the threshold in
  m/s, returns the pair \<open>(wind, windfromdir)\<close>.
\<close>

definition uas_vas_2_sfcwind ::
  "'i data_array \<Rightarrow> 'i data_array \<Rightarrow> real \<Rightarrow> 'i data_array \<times> 'i data_array" where
  "uas_vas_2_sfcwind uas vas wind_thresh =
     (let wind = (\<lambda>i. lift2 hypot (uas i) (vas i));
          windfromdir_math = (\<lambda>i. map_option degrees (lift2 arctan2 (vas i) (uas i)));
          windfromdir = (\<lambda>i. map_option (\<lambda>w. float_mod (270 - w) 360) (windfromdir_math i));
          windfromdir1 = (\<lambda>i. xr_where
             (case windfromdir i of None \<Rightarrow> False | Some w \<Rightarrow> np_round w = 0)
             (Some 360) (windfromdir i));
          windfromdir2 = (\<lambda>i. xr_where (lt (wind i) wind_thresh) (Some 0) (windfromdir1 i))
      in (wind, windfromdir2))"

subsection \<open>saturation_vapor_pressure\<close>

definition sonntag90_water :: "real \<Rightarrow> float" where
  "sonntag90_water T =
     Option.bind (divide_nan (- 6096.9385) T) (\<lambda>q.
     Option.bind (log_nan T) (\<lambda>l.
       Some (100 * exp (q + 16.635794 + - 0.02711193 * T + 0.00001673952 * T\<^sup>2
                        + 2.433502 * l))))"

definition sonntag90_ice :: "real \<Rightarrow> float" where
  "sonntag90_ice T =
     Option.bind (divide_nan (- 6024.5282) T) (\<lambda>q.
     Option.bind (log_nan T) (\<lambda>l.
       Some (100 * exp (q + 24.7219 + 0.010613868 * T + - 0.000013198825 * T\<^sup>2
                        + - 0.49382577 * l))))"

definition tetens30_water :: "real \<Rightarrow> float" where
  "tetens30_water T =
     map_option (\<lambda>q. 610.78 * exp q) (divide_nan (17.269388 * (T - 273.16)) (T - 35.86))"

definition tetens30_ice :: "real \<Rightarrow> float" where
  "tetens30_ice T =
     map_option (\<lambda>q. 610.78 * exp q) (divide_nan (21.8745584 * (T - 273.16)) (T - 7.66))"

definition goffgratch46_water :: "real \<Rightarrow> float" where
  "goffgratch46_water T =
     (let Tb = 373.16; eb = 101325
      in Option.bind (divide_nan Tb T) (\<lambda>r.
         Option.bind (log10_nan r) (\<lambda>l.
           Some (eb * 10 powr (- 7.90298 * (r - 1) + 5.02808 * l
                   + - 0.00000013817 * (10 powr (11.344 * (1 - T / Tb)) - 1)
                   + 0.0081328 * (10 powr (- 3.49149 * (r - 1)) - 1))))))"

definition goffgratch46_ice :: "real \<Rightarrow> float" where
  "goffgratch46_ice T =
     (let Tp = 273.16; ep = 611.73
      in Option.bind (divide_nan Tp T) (\<lambda>r.
         Option.bind (log10_nan r) (\<lambda>l.
           Some (ep * 10 powr (- 9.09718 * (r - 1) + - 3.56654 * l
                   + 0.876793 * (1 - T / Tp))))))"

definition wmo08_water :: "real \<Rightarrow> float" where
  "wmo08_water T =
     map_option (\<lambda>q. 611.2 * exp q) (divide_nan (17.62 * (T - 273.16)) (T - 30.04))"

definition wmo08_ice :: "real \<Rightarrow> float" where
  "wmo08_ice T =
     map_option (\<lambda>q. 611.2 * exp q) (divide_nan (22.46 * (T - 273.16)) (T - 0.54))"

text \<open>
  \<open>saturation_vapor_pressure tas ice_thresh method\<close>: \<open>tas\<close> in K; \<open>ice_thresh\<close> is
  \<open>None\<close> or the threshold in K. Both formulas of a method are computed for every
  entry and \<open>xr.where\<close> selects one of them.
\<close>

definition saturation_vapor_pressure ::
  "'i data_array \<Rightarrow> real option \<Rightarrow> string \<Rightarrow> error + 'i data_array" where
  "saturation_vapor_pressure tas ice_thresh method =
     (let thresh = (case ice_thresh of Some t \<Rightarrow> t | None \<Rightarrow> 0);
          ref_is_water = (\<lambda>i. gt (tas i) thresh)
      in if method \<in> set [''sonntag90'', ''SO90''] then
           Inr (\<lambda>i. xr_where (ref_is_water i)
                  (Option.bind (tas i) sonntag90_water) (Option.bind (tas i) sonntag90_ice))
         else if method \<in> set [''tetens30'', ''TE30''] then
           Inr (\<lambda>i. xr_where (ref_is_water i)
                  (Option.bind (tas i) tetens30_water) (Option.bind (tas i) tetens30_ice))
         else if method \<in> set [''goffgratch46'', ''GG46''] then
           Inr (\<lambda>i. xr_where (ref_is_water i)
                  (Option.bind (tas i) goffgratch46_water) (Option.bind (tas i) goffgratch46_ice))
         else if method \<in> set [''wmo08'', ''WMO08''] then
           Inr (\<lambda>i. xr_where (ref_is_water i)
                  (Option.bind (tas i) wmo08_water) (Option.bind (tas i) wmo08_ice))
         else Inl ValueError)"

subsection \<open>relative_humidity\<close>

text \<open>\<open>clip(0, 100)\<close> leaves NaN as it is.\<close>

definition clip :: "float \<Rightarrow> real \<Rightarrow> real \<Rightarrow> float" where
  "clip x lo hi = map_option (\<lambda>v. min hi (max lo v)) x"

definition bohren98 :: "real \<Rightarrow> real \<Rightarrow> float" where
  "bohren98 T Td =
     (let L = 2501000; Rw = 461.5
      in map_option (\<lambda>q. 100 * exp q) (divide_nan (- L * (T - Td)) (Rw * T * Td)))"

definition mixing_ratio_rh :: "real \<Rightarrow> real \<Rightarrow> real \<Rightarrow> float" where
  "mixing_ratio_rh huss ps e_sat =
     Option.bind (divide_nan huss (1 - huss)) (\<lambda>w.
     Option.bind (divide_nan (0.62198 * e_sat) (ps - e_sat)) (\<lambda>w_sat.
       divide_nan (100 * w) w_sat))"

text \<open>
  \<open>relative_humidity tas dtas huss ps ice_thresh method invalid_values\<close>: an argument
  left at its default \<open>None\<close> is \<open>None\<close>. \<open>Rw = (461.5,)\<close> is a tuple of one number,
  which multiplies an array entry by entry like the number. \<open>convert_units_to\<close> has no
  conversion for \<open>None\<close> and raises NotImplementedError.
\<close>

definition relative_humidity ::
  "'i data_array \<Rightarrow> 'i data_array option \<Rightarrow> 'i data_array option \<Rightarrow> 'i data_array option \<Rightarrow>
   real option \<Rightarrow> string \<Rightarrow> string option \<Rightarrow> error + 'i data_array" where
  "relative_humidity tas dtas huss ps ice_thresh method invalid_values =
     (case
        (if method \<in> set [''bohren98'', ''BA90''] then
           (case dtas of
              None \<Rightarrow> Inl ValueError
            | Some dt \<Rightarrow>
                Inr (\<lambda>i. Option.bind (tas i) (\<lambda>T. Option.bind (dt i) (\<lambda>Td. bohren98 T Td))))
         else
           (case dtas of
              Some dt \<Rightarrow>
                (case saturation_vapor_pressure dt ice_thresh method of
                   Inl e \<Rightarrow> Inl e
                 | Inr e_sat_dt \<Rightarrow>
                     (case saturation_vapor_pressure tas ice_thresh method of
                        Inl e \<Rightarrow> Inl e
                      | Inr e_sat_t \<Rightarrow>
                          Inr (\<lambda>i. Option.bind (e_sat_dt i) (\<lambda>a. Option.bind (e_sat_t i)
                                 (\<lambda>b. divide_nan (100 * a) b)))))
            | None \<Rightarrow>
                (case ps of
                   None \<Rightarrow> Inl NotImplementedError
                 | Some p \<Rightarrow>
                     (case huss of
                        None \<Rightarrow> Inl NotImplementedError
                      | Some q \<Rightarrow>
                          (case saturation_vapor_pressure tas ice_thresh method of
                             Inl e \<Rightarrow> Inl e
                           | Inr e_sat \<Rightarrow>
                               Inr (\<lambda>i. Option.bind (q i) (\<lambda>h. Option.bind (p i) (\<lambda>pp.
                                      Option.bind (e_sat i) (\<lambda>e. mixing_ratio_rh h pp e)))))))))
      of
        Inl e \<Rightarrow> Inl e
      | Inr rh \<Rightarrow>
          if invalid_values = Some ''clip'' then Inr (\<lambda>i. clip (rh i) 0 100)
          else if invalid_values = Some ''mask'' then
            Inr (\<lambda>i. xr_where (le (rh i) 100 \<and> ge (rh i) 0) (rh i) None)
          else Inr rh)"

subsection \<open>snowfall_approximation and rain_approximation\<close>

text \<open>\<open>thresh\<close> is the threshold in the units of \<open>tas\<close>.\<close>

definition snowfall_approximation ::
  "'i data_array \<Rightarrow> 'i data_array \<Rightarrow> real \<Rightarrow> string \<Rightarrow> error + 'i data_array" where
  "snowfall_approximation pr tas thresh method =
     (if method = ''binary'' then Inr (\<lambda>i. xr_where (lt (tas i) thresh) (pr i) (Some 0))
      else Inl ValueError)"

definition rain_approximation ::
  "'i data_array \<Rightarrow> 'i data_array \<Rightarrow> real \<Rightarrow> string \<Rightarrow> error + 'i data_array" where
  "rain_approximation pr tas thresh method =
     (case snowfall_approximation pr tas thresh method of
        Inl e \<Rightarrow> Inl e
      | Inr prsn \<Rightarrow> Inr (\<lambda>i. lift2 (-) (pr i) (prsn i)))"

section \<open>Which values percentile_doy pools\<close>

text \<open>
  The positions of the timestamps whose day of the year is \<open>d\<close>, the entries of the
  series that lie within \<open>h\<close> positions of position \<open>i\<close>, and the pool of day \<open>d\<close>:
  the entries within \<open>h\<close> positions of a timestamp whose day of the year is \<open>d\<close>, an
  entry once for each such timestamp.
\<close>

definition centers :: "nat list \<Rightarrow> nat \<Rightarrow> nat list" where
  "centers doy d = filter (\<lambda>i. doy ! i = d) [0..<length doy]"

definition window_at :: "float list \<Rightarrow> nat \<Rightarrow> nat \<Rightarrow> float list" where
  "window_at arr h i = map ((!) arr) (filter (\<lambda>k. i \<le> k + h \<and> k \<le> i + h) [0..<length arr])"

definition pool :: "nat list \<Rightarrow> float list \<Rightarrow> nat \<Rightarrow> nat \<Rightarrow> float list" where
  "pool doy arr h d = concat (map (window_at arr h) (centers doy d))"

text \<open>
  The pool in the spec's words: the values at the timestamps whose day of the year lies
  within \<open>h\<close> days of \<open>d\<close>, circularly in a year of \<open>year\<close> days.
\<close>

definition circular_distance :: "nat \<Rightarrow> nat \<Rightarrow> nat \<Rightarrow> nat" where
  "circular_distance year a b = (let k = (if a \<le> b then b - a else a - b) in min k (year - k))"

definition circular_pool :: "nat \<Rightarrow> nat list \<Rightarrow> float list \<Rightarrow> nat \<Rightarrow> nat \<Rightarrow> float list" where
  "circular_pool year doy arr h d =
     map ((!) arr) (filter (\<lambda>k. circular_distance year (doy ! k) d \<le> h) [0..<length arr])"

text \<open>One year of daily values in a calendar of 365 days: day \<open>k + 1\<close> has the value \<open>k\<close>.\<close>

definition year_doy :: "nat list" where
  "year_doy = map Suc [0..<365]"

definition one_year :: "float list" where
  "one_year = map (\<lambda>k. Some (real k)) [0..<365]"

section \<open>Frost-day runs: CFD, CFD2\<close>

text \<open>
  The longest run as the spec defines it, which \<open>CFD2\<close> applies to each period, is
  bounded by the length of the sequence, reaches it exactly on an all-True sequence and
  is 0 exactly when no entry is True.
\<close>

lemma fold_max_init: "fold max xs (a::nat) = max a (fold max xs 0)"
proof (induction xs arbitrary: a)
  case Nil
  then show ?case by simp
next
  case (Cons x xs)
  have "fold max (x # xs) a = max (max x a) (fold max xs 0)"
    using Cons.IH [of "max x a"] by simp
  moreover have "fold max (x # xs) 0 = max x (fold max xs 0)"
    using Cons.IH [of "max x 0"] by simp
  ultimately show ?case by (simp add: max.commute max.left_commute)
qed

lemma scan_closed_run:
  "fold max xs (run_len r) = max (run_len r) (fold max xs 0)"
  by (rule fold_max_init)

lemma scan_runs_lower: "open_len st \<le> fold max (map run_len (scan_runs i st bs)) 0"
proof (induction i st bs rule: scan_runs.induct)
  case (4 i r b bs)
  then show ?case by (cases b) (simp_all add: scan_closed_run)
qed simp_all

lemma scan_runs_upper:
  "fold max (map run_len (scan_runs i st bs)) 0 \<le> open_len st + length bs"
proof (induction i st bs rule: scan_runs.induct)
  case (3 i b bs)
  then show ?case by (cases b) simp_all
next
  case (4 i r b bs)
  then show ?case by (cases b) (simp_all add: scan_closed_run)
qed simp_all

lemma scan_runs_full:
  "(fold max (map run_len (scan_runs i st bs)) 0 = open_len st + length bs) = (\<forall>b\<in>set bs. b)"
proof (induction i st bs rule: scan_runs.induct)
  case (3 i b bs)
  show ?case
  proof (cases b)
    case True
    with 3 show ?thesis by simp
  next
    case False
    with scan_runs_upper [of "Suc i" None bs] show ?thesis by auto
  qed
next
  case (4 i r b bs)
  show ?case
  proof (cases b)
    case True
    with 4 show ?thesis by simp
  next
    case False
    with scan_runs_upper [of "Suc i" None bs] show ?thesis
      by (auto simp add: scan_closed_run)
  qed
qed simp_all

lemma scan_runs_zero:
  "(fold max (map run_len (scan_runs i st bs)) 0 = 0) = (open_len st = 0 \<and> (\<forall>b\<in>set bs. \<not> b))"
proof (induction i st bs rule: scan_runs.induct)
  case (3 i b bs)
  then show ?case by (cases b) simp_all
next
  case (4 i r b bs)
  show ?case
  proof (cases b)
    case True
    with 4 show ?thesis by simp
  next
    case False
    with 4 show ?thesis
      by (simp add: scan_closed_run)
  qed
qed simp_all

lemma longest_run_bounds:
  "longest_run arr \<le> length arr
   \<and> (longest_run arr = length arr) = (\<forall>b\<in>set arr. b)
   \<and> (longest_run arr = 0) = (\<forall>b\<in>set arr. \<not> b)"
  using scan_runs_upper [of 0 None arr] scan_runs_full [of 0 None arr] scan_runs_zero [of 0 None arr]
  by (simp add: longest_run_def runs_def)

text \<open>
  \<open>CFD2\<close> resamples first: the statistic of a period is the longest run of the
  frost mask of the temperatures of that period alone.
\<close>

lemma resample_map:
  "resample (map (\<lambda>(l, x). (l, f x)) ps) = map (\<lambda>(l, xs). (l, map f xs)) (resample ps)"
proof (induction ps)
  case Nil
  then show ?case by simp
next
  case (Cons p ps)
  obtain l x where p: "p = (l, x)" by (cases p)
  show ?case
  proof (cases "resample ps")
    case Nil
    with Cons show ?thesis by (simp add: p)
  next
    case (Cons g gs)
    obtain l' xs where g: "g = (l', xs)" by (cases g)
    from Cons Cons.IH show ?thesis by (simp add: p g)
  qed
qed

lemma CFD2_per_period:
  "CFD2 time tasmin
     = map (\<lambda>(l, ts). (l, longest_run (map (\<lambda>t. lt t K2C) ts))) (resample (zip time tasmin))"
proof -
  have "zip time (map (\<lambda>t. lt t K2C) tasmin) = map (\<lambda>(l, t). (l, lt t K2C)) (zip time tasmin)"
    by (simp add: zip_map2)
  then have "CFD2 time tasmin
     = map (\<lambda>(l, x). (l, longest_run x))
         (map (\<lambda>(l, ts). (l, map (\<lambda>t. lt t K2C) ts)) (resample (zip time tasmin)))"
    by (simp only: CFD2_def Let_def resample_map)
  then show ?thesis by (simp add: case_prod_unfold comp_def)
qed

lemma CFD2_truncates_at_boundary:
  "CFD2 [0, 0, 1, 1] [Some 280, Some 270, Some 270, Some 280] = [(0, 1), (1, 1)]
   \<and> CFD2 [0, 0, 0] [Some 270, Some 270, Some 270] = [(0, 3)]"
  by (simp add: CFD2_def K2C_def longest_run_def runs_def)

text \<open>
  C1. The longest-run statistic of a boolean sequence of length \<open>n\<close> is at most \<open>n\<close>,
  is \<open>n\<close> exactly when every entry is True and is 0 exactly when no entry is True.
  \<open>CFD\<close> does not compute this statistic at the ends of the series: on three frost
  days in one period it returns the missing marker and not 3; on two frost days followed
  by a warm day it returns \<open>-1\<close>; on a frost day followed by two warm days it
  returns 0 although an entry is True.
\<close>

theorem CFD_misses_runs_at_series_ends:
  "CFD [0, 0, 0] [Some 270, Some 270, Some 270] = [(0, None)]
   \<and> CFD [0, 0, 0] [Some 270, Some 270, Some 280] = [(0, Some (- 1))]
   \<and> CFD [0, 0, 0] [Some 270, Some 280, Some 280] = [(0, Some 0)]"
  by (simp add: CFD_def where_cond_def K2C_def)

text \<open>
  C2. The run statistic of a period is computed from the mask values of that period
  only. \<open>CFD\<close> measures the runs on the whole series before it resamples: with two
  periods of two days and frost on the second and third day, the first period gets 2,
  which counts a day of the second period, and the second period gets \<open>-1\<close>.
\<close>

theorem CFD_counts_across_period_boundary:
  "CFD [0, 0, 1, 1] [Some 280, Some 270, Some 270, Some 280] = [(0, Some 2), (1, Some (- 1))]"
  by (simp add: CFD_def where_cond_def K2C_def)

section \<open>Windowed run aggregation: HWI, CSI\<close>

lemma windowed_func_no_number: "windowed_func window x \<noteq> Inr (Some n)"
  by (simp add: windowed_func_def split: sum.splits)

text \<open>
  C3. \<open>HWI\<close> and \<open>CSI\<close> return one numeric value per period. The inner \<open>func\<close>
  returns nothing: for a week of heat (of cold) followed by a day of the next period,
  each period's result is Python's \<open>None\<close>.
\<close>

theorem HWI_CSI_return_no_number:
  "HWI [0, 0, 0, 0, 0, 0, 1]
       [Some 300, Some 300, Some 300, Some 300, Some 300, Some 300, Some 280] 25 5
     = [(0, Inr None), (1, Inr None)]
   \<and> CSI [0, 0, 0, 0, 0, 0, 1]
         [Some 260, Some 260, Some 260, Some 260, Some 260, Some 260, Some 280] (- 10) 5
     = [(0, Inr None), (1, Inr None)]"
  by (simp add: HWI_def CSI_def K2C_def windowed_func_def windowed_run_count_def)

section \<open>percentile_doy\<close>

lemma valid_append: "valid (xs @ ys) = valid xs @ valid ys"
  by (induction xs rule: valid.induct) simp_all

lemma valid_replicate_None: "valid (replicate n None) = []"
  by (induction n) simp_all

lemma valid_concat: "valid (concat xss) = concat (map valid xss)"
  by (induction xss) (simp_all add: valid_append)

lemma filter_upt_interval:
  "filter (\<lambda>k. a \<le> k \<and> k < b) [0..<n] = [a..<min b n]"
proof (induction n)
  case 0
  then show ?case by simp
next
  case (Suc n)
  show ?case
  proof (cases "a \<le> n \<and> n < b")
    case True
    then have "min b (Suc n) = Suc n" and "min b n = n" by auto
    with True have "[a..<min b (Suc n)] = [a..<min b n] @ [n]"
      by (simp add: upt_Suc_append)
    with True Suc show ?thesis by simp
  next
    case False
    then have "[a..<min b (Suc n)] = [a..<min b n]"
      by (auto simp: min_def)
    with False Suc show ?thesis by auto
  qed
qed

lemma map_nth_interval:
  "b \<le> length xs \<Longrightarrow> map ((!) xs) [a..<b] = take (b - a) (drop a xs)"
  by (rule nth_equalityI) auto

lemma window_at_take_drop:
  "window_at arr h i = take (min (i + h + 1) (length arr) - (i - h)) (drop (i - h) arr)"
proof -
  have "(\<lambda>k. i \<le> k + h \<and> k \<le> i + h) = (\<lambda>k. i - h \<le> k \<and> k < i + h + 1)"
    by (rule ext) arith
  then have "window_at arr h i = map ((!) arr) [i - h..<min (i + h + 1) (length arr)]"
    by (simp add: window_at_def filter_upt_interval)
  then show ?thesis by (simp add: map_nth_interval)
qed

lemma valid_window:
  assumes "i < length arr"
  shows "valid (take (2 * h + 1) (drop i (replicate h None @ arr @ replicate h None)))
         = valid (window_at arr h i)"
proof (cases "i \<le> h")
  case True
  then have "drop i (replicate h None @ arr @ replicate h None)
             = replicate (h - i) None @ arr @ replicate h None"
    by simp
  moreover have "2 * h + 1 - (h - i) = i + h + 1" using True by simp
  ultimately have "valid (take (2 * h + 1) (drop i (replicate h None @ arr @ replicate h None)))
      = valid (take (i + h + 1) arr)"
    by (simp add: valid_append valid_replicate_None min_def)
  moreover from True have "window_at arr h i = take (i + h + 1) arr"
    by (simp add: window_at_take_drop min_def)
  ultimately show ?thesis by simp
next
  case False
  with assms have "drop i (replicate h None @ arr @ replicate h None)
             = drop (i - h) arr @ replicate h None"
    by simp
  then have "valid (take (2 * h + 1) (drop i (replicate h None @ arr @ replicate h None)))
      = valid (take (2 * h + 1) (drop (i - h) arr))"
    by (simp add: valid_append valid_replicate_None)
  moreover from False assms
  have "window_at arr h i = take (2 * h + 1) (drop (i - h) arr)"
    by (auto simp: window_at_take_drop min_def mult_2)
  ultimately show ?thesis by simp
qed

lemma rolling_construct_nth:
  "i < length arr \<Longrightarrow>
   rolling_construct arr w ! i
     = take w (drop i (replicate (w div 2) None @ arr @ replicate (w - 1 - w div 2) None))"
  by (simp add: rolling_construct_def Let_def)

lemma length_rolling_construct: "length (rolling_construct arr w) = length arr"
  by (simp add: rolling_construct_def Let_def)

lemma group_rows:
  assumes "length doy = length rows"
  shows "map snd (filter (\<lambda>(k, r). k = d) (zip doy rows)) = map ((!) rows) (centers doy d)"
proof -
  have z: "zip doy rows = map (\<lambda>i. (doy ! i, rows ! i)) [0..<length doy]"
    using assms by (intro nth_equalityI) auto
  show ?thesis
    unfolding z centers_def by (simp add: filter_map comp_def)
qed

lemma set_centers: "i \<in> set (centers doy d) \<Longrightarrow> i < length doy"
  by (simp add: centers_def)

lemma valid_group:
  assumes "length doy = length arr" and "w = 2 * h + 1"
  shows "valid (concat (map snd (filter (\<lambda>(k, r). k = d) (zip doy (rolling_construct arr w)))))
         = valid (pool doy arr h d)"
proof -
  have hw: "(2 * h + 1) div 2 = h" "2 * h + 1 - 1 - h = h" by simp_all
  have step: "valid (rolling_construct arr w ! i) = valid (window_at arr h i)"
    if "i \<in> set (centers doy d)" for i
  proof -
    from that assms(1) have i: "i < length arr" by (auto dest: set_centers)
    then have "rolling_construct arr w ! i
        = take (2 * h + 1) (drop i (replicate h None @ arr @ replicate h None))"
      using rolling_construct_nth [OF i, of "2 * h + 1"] by (simp only: hw assms(2))
    with valid_window [OF i] show ?thesis by simp
  qed
  have eq: "map (\<lambda>i. valid (rolling_construct arr w ! i)) (centers doy d)
             = map (\<lambda>i. valid (window_at arr h i)) (centers doy d)"
    by (rule map_cong [OF refl]) (rule step)
  show ?thesis
    by (simp add: group_rows assms(1) length_rolling_construct valid_concat pool_def comp_def eq)
qed

lemma quantile_valid: "valid a = valid b \<Longrightarrow> quantile per a = quantile per b"
  by (simp add: quantile_def)

lemma quantile_Inr: "0 \<le> per \<Longrightarrow> per \<le> 1 \<Longrightarrow> \<exists>q. quantile per a = Inr q"
  by (simp add: quantile_def Let_def)

lemma map_of_set_loc_same:
  "d \<in> fst ` set p \<Longrightarrow> map_of (set_loc p d q) d = Some q"
  by (induction p) (auto simp: set_loc_def)

lemma map_of_set_loc_other:
  "d \<noteq> k \<Longrightarrow> map_of (set_loc p k q) d = map_of p d"
  by (induction p) (auto simp: set_loc_def)

lemma keys_set_loc: "fst ` set (set_loc p k q) = fst ` set p"
  by (induction p) (auto simp: set_loc_def)

lemma loop_Inr:
  "0 \<le> per \<Longrightarrow> per \<le> 1 \<Longrightarrow> \<exists>p'. percentile_loop per g p = Inr p'"
proof (induction g arbitrary: p)
  case Nil
  then show ?case by simp
next
  case (Cons a g)
  obtain d ind where a: "a = (d, ind)" by (cases a)
  from Cons.prems obtain q where "quantile per (concat ind) = Inr q"
    using quantile_Inr by blast
  with Cons a show ?case by simp
qed

lemma loop_other:
  "percentile_loop per g p = Inr p' \<Longrightarrow> d \<notin> fst ` set g \<Longrightarrow> map_of p' d = map_of p d"
proof (induction g arbitrary: p)
  case Nil
  then show ?case by simp
next
  case (Cons a g)
  obtain k ind where a: "a = (k, ind)" by (cases a)
  from Cons.prems a obtain q where q: "quantile per (concat ind) = Inr q"
    and l: "percentile_loop per g (set_loc p k q) = Inr p'"
    by (auto split: sum.splits)
  from Cons.prems a have "d \<noteq> k" "d \<notin> fst ` set g" by auto
  with Cons.IH [OF l] show ?case by (simp add: map_of_set_loc_other)
qed

lemma loop_entry:
  "percentile_loop per g p = Inr p' \<Longrightarrow> distinct (map fst g) \<Longrightarrow> (d, ind) \<in> set g \<Longrightarrow>
   d \<in> fst ` set p \<Longrightarrow> \<exists>q. quantile per (concat ind) = Inr q \<and> map_of p' d = Some q"
proof (induction g arbitrary: p)
  case Nil
  then show ?case by simp
next
  case (Cons a g)
  obtain k ind' where a: "a = (k, ind')" by (cases a)
  from Cons.prems a obtain q where q: "quantile per (concat ind') = Inr q"
    and l: "percentile_loop per g (set_loc p k q) = Inr p'"
    by (auto split: sum.splits)
  show ?case
  proof (cases "(d, ind) = (k, ind')")
    case True
    with Cons.prems a have "d \<notin> fst ` set g" by auto
    from loop_other [OF l this] True Cons.prems(4) q show ?thesis
      by (simp add: map_of_set_loc_same)
  next
    case False
    with Cons.prems a have m: "(d, ind) \<in> set g" and dist: "distinct (map fst g)" by auto
    from Cons.prems(4) have "d \<in> fst ` set (set_loc p k q)" by (simp add: keys_set_loc)
    from Cons.IH [OF l dist m this] show ?thesis .
  qed
qed

lemma percentile_doy_entry:
  assumes "0 < window" and "odd window" and "0 \<le> per" and "per \<le> 1"
    and "length doy = length arr" and "d \<in> set doy"
  shows "\<exists>p q. percentile_doy doy arr window per = Inr p \<and> map_of p d = Some q
           \<and> quantile per (pool doy arr (nat window div 2) d) = Inr q"
proof -
  define w where "w = nat window"
  define h where "h = w div 2"
  from assms(1,2) have odd: "odd w" by (simp add: w_def even_nat_iff)
  then have w: "w = 2 * h + 1" by (auto simp: h_def elim: oddE)
  define g where "g = groupby doy (rolling_construct arr w)"
  define p0 where "p0 = map (\<lambda>(d, n). (d, None :: float)) (map (\<lambda>(d, ind). (d, length (valid (concat ind)))) g)"
  from assms(5,6) have ne: "arr \<noteq> []" by auto
  have pd: "percentile_doy doy arr window per = percentile_loop per g p0"
    using assms(1) ne by (simp add: percentile_doy_def Let_def g_def p0_def w_def)
  from loop_Inr [OF assms(3,4)] obtain p where p: "percentile_loop per g p0 = Inr p" by blast
  have keys: "map fst g = sort (remdups doy)"
    by (simp add: g_def groupby_def comp_def)
  then have dist: "distinct (map fst g)" by simp
  let ?ind = "map snd (filter (\<lambda>(k, r). k = d) (zip doy (rolling_construct arr w)))"
  from assms(6) have mem: "(d, ?ind) \<in> set g"
    by (auto simp: g_def groupby_def)
  have "fst ` set p0 = fst ` set g"
    by (force simp: p0_def)
  with mem have dk: "d \<in> fst ` set p0" by force
  from loop_entry [OF p dist mem dk] obtain q
    where q: "quantile per (concat ?ind) = Inr q" and m: "map_of p d = Some q" by blast
  from valid_group [OF assms(5) w] have "valid (concat ?ind) = valid (pool doy arr h d)" .
  from quantile_valid [OF this] q have "quantile per (pool doy arr h d) = Inr q" by simp
  with pd p m show ?thesis by (auto simp: h_def w_def)
qed

lemma upt_split: "a \<le> b \<Longrightarrow> b \<le> c \<Longrightarrow> [a..<c] = [a..<b] @ [b..<c]"
  using upt_add_eq_append [of a b "c - b"] by simp

lemma window_at_interval:
  "window_at arr h i = map ((!) arr) [i - h..<min (i + h + 1) (length arr)]"
proof -
  have "(\<lambda>k. i \<le> k + h \<and> k \<le> i + h) = (\<lambda>k. i - h \<le> k \<and> k < i + h + 1)"
    by (rule ext) arith
  then show ?thesis by (simp add: window_at_def filter_upt_interval)
qed

lemma length_year: "length year_doy = 365" "length one_year = 365"
  by (simp_all add: year_doy_def one_year_def)

lemma nth_year: "k < 365 \<Longrightarrow> year_doy ! k = Suc k" "k < 365 \<Longrightarrow> one_year ! k = Some (real k)"
  by (simp_all add: year_doy_def one_year_def)

lemma centers_jan1: "centers year_doy 1 = [0]"
proof -
  have "filter (\<lambda>i. year_doy ! i = 1) [0..<365] = filter (\<lambda>i. 0 \<le> i \<and> i < 1) [0..<365]"
    by (rule filter_cong) (auto simp: nth_year)
  also have "\<dots> = [0..<1]" by (simp only: filter_upt_interval) simp
  finally show ?thesis by (simp add: centers_def length_year)
qed

lemma pool_jan1: "pool year_doy one_year 2 1 = [Some 0, Some 1, Some 2]"
proof -
  have "window_at one_year 2 0 = [Some 0, Some 1, Some 2]"
    by (simp add: window_at_interval length_year nth_year)
  then show ?thesis unfolding pool_def centers_jan1 by simp
qed

lemma circular_pool_jan1:
  "circular_pool 365 year_doy one_year 2 1 = [Some 0, Some 1, Some 2, Some 363, Some 364]"
proof -
  let ?P = "\<lambda>k. circular_distance 365 (year_doy ! k) 1 \<le> 2"
  have split: "[0..<365] = [0..<3] @ [3..<363] @ [363..<365]"
    using upt_split [of 0 3 365] upt_split [of 3 363 365] by (simp del: upt_rec_numeral)
  have a: "filter ?P [0..<3] = [0..<3]"
  proof (rule filter_True, rule ballI)
    fix k assume "k \<in> set [0..<3]"
    then have "k < 3" by (simp del: upt_rec_numeral)
    then show "?P k" by (simp add: nth_year circular_distance_def Let_def)
  qed
  have b: "filter ?P [3..<363] = []"
  proof (rule filter_False, rule ballI)
    fix k assume "k \<in> set [3..<363]"
    then have "3 \<le> k \<and> k < 363" by (simp del: upt_rec_numeral)
    then show "\<not> ?P k" by (auto simp: nth_year circular_distance_def Let_def min_def)
  qed
  have c: "filter ?P [363..<365] = [363..<365]"
  proof (rule filter_True, rule ballI)
    fix k assume "k \<in> set [363..<365]"
    then have "363 \<le> k \<and> k < 365" by (simp del: upt_rec_numeral)
    then show "?P k" by (auto simp: nth_year circular_distance_def Let_def min_def)
  qed
  have "filter ?P [0..<365] = [0..<3] @ [363..<365]"
    by (simp only: split filter_append a b c append_Nil)
  also have "\<dots> = [0, 1, 2, 363, 364]" by (simp add: upt_conv_Cons)
  finally show ?thesis
    by (simp add: circular_pool_def length_year nth_year)
qed

text \<open>
  C4, as the claim states it: the entry of day \<open>d\<close> is the quantile of the values whose
  day of the year lies within \<open>\<lfloor>w / 2\<rfloor>\<close> days of \<open>d\<close>, circularly. For one year of
  365 daily values, \<open>w = 5\<close> and \<open>per = 0.1\<close>, the entry of 1 January is the quantile
  of the values of 1 to 3 January, \<open>0.2\<close>; over the circular pool, which adds 30 and 31
  December, the quantile is \<open>0.4\<close>.
\<close>

theorem percentile_doy_not_circular:
  "map_sum id (\<lambda>p. map_of p 1) (percentile_doy year_doy one_year 5 (1 / 10))
     = Inr (Some (Some (1 / 5)))
   \<and> quantile (1 / 10) (circular_pool 365 year_doy one_year 2 1) = Inr (Some (2 / 5))"
proof -
  have "\<exists>p q. percentile_doy year_doy one_year 5 (1 / 10) = Inr p \<and> map_of p 1 = Some q
           \<and> quantile (1 / 10) (pool year_doy one_year (nat 5 div 2) 1) = Inr q"
    by (rule percentile_doy_entry) (simp_all add: length_year year_doy_def)
  then obtain p q where p: "percentile_doy year_doy one_year 5 (1 / 10) = Inr p"
    and m: "map_of p 1 = Some q"
    and q: "quantile (1 / 10) (pool year_doy one_year 2 1) = Inr q"
    by auto
  have "quantile (1 / 10) [Some 0, Some 1, Some 2] = Inr (Some (1 / 5))"
    by (simp add: quantile_def)
  with q [unfolded pool_jan1] have "q = Some (1 / 5)" by simp
  with p m have first: "map_sum id (\<lambda>p. map_of p 1) (percentile_doy year_doy one_year 5 (1 / 10))
     = Inr (Some (Some (1 / 5)))" by simp
  have "quantile (1 / 10) [Some 0, Some 1, Some 2, Some 363, Some 364] = Inr (Some (2 / 5))"
    by (simp add: quantile_def)
  then have second: "quantile (1 / 10) (circular_pool 365 year_doy one_year 2 1) = Inr (Some (2 / 5))"
    by (simp only: circular_pool_jan1)
  from first second show ?thesis by simp
qed

text \<open>
  C4, amended: for an odd window \<open>w\<close> and a quantile in \<open>[0, 1]\<close>, the table entry of
  each day of the year \<open>d\<close> of the time coordinate is the quantile of the pool of \<open>d\<close>:
  the values within \<open>\<lfloor>w / 2\<rfloor>\<close> positions along the time axis of a timestamp whose
  day of the year is \<open>d\<close>. The window crosses from 31 December to 1 January of the next
  year of the series and stops at both ends of the series.
\<close>

theorem percentile_doy_pools_time_window:
  assumes "0 < window" and "odd window" and "0 \<le> per" and "per \<le> 1"
    and "length doy = length arr" and "d \<in> set doy"
  shows "\<exists>p q. percentile_doy doy arr window per = Inr p \<and> map_of p d = Some q
           \<and> quantile per (pool doy arr (nat window div 2) d) = Inr q"
  using assms by (rule percentile_doy_entry)

theorem percentile_doy_pools_time_window_witness:
  "\<exists>p q. percentile_doy [364, 365, 1, 2, 3] [Some 5, Some 4, Some 3, Some 2, Some 1] 5 (1 / 10)
            = Inr p
     \<and> map_of p 1 = Some q
     \<and> quantile (1 / 10)
          (pool [364, 365, 1, 2, 3] [Some 5, Some 4, Some 3, Some 2, Some 1] (nat 5 div 2) 1)
        = Inr q"
  using percentile_doy_pools_time_window
    [of 5 "1 / 10" "[364, 365, 1, 2, 3]" "[Some 5, Some 4, Some 3, Some 2, Some 1]" 1]
  by simp

text \<open>
  C5, as the claim states it: a quantile outside the open interval \<open>(0, 1)\<close> is
  rejected. The quantiles 0 and 1 are accepted and give a table.
\<close>

theorem percentile_doy_accepts_bounds:
  "percentile_doy [1, 2, 3] [Some 1, Some 2, Some 3] 3 0
     = Inr [(1, Some 1), (2, Some 1), (3, Some 2)]
   \<and> percentile_doy [1, 2, 3] [Some 1, Some 2, Some 3] 3 1
     = Inr [(1, Some 2), (2, Some 3), (3, Some 3)]"
  by (simp add: percentile_doy_def rolling_construct_def groupby_def quantile_def set_loc_def)

text \<open>
  C5, amended: a quantile outside the closed interval \<open>[0, 1]\<close> ends \<open>percentile_doy\<close>
  with a ValueError for every array (with its time coordinate) and every window, and a
  run statistic called with \<open>window \<le> 0\<close> ends with an error, which the inner \<open>func\<close>
  of \<open>HWI\<close> and \<open>CSI\<close> passes on to the caller; no table and no count is returned.
  The run statistic is the one modelled from the spec.
\<close>

theorem percentile_doy_rejects:
  "(length doy = length arr \<and> (per < 0 \<or> 1 < per)
      \<longrightarrow> percentile_doy doy arr window per = Inl ValueError)
   \<and> (w \<le> 0 \<longrightarrow> windowed_run_count w x = Inl ContractViolation
                 \<and> windowed_func w x = Inl ContractViolation)"
proof -
  have first: "percentile_doy doy arr window per = Inl ValueError"
    if len: "length doy = length arr" and per: "per < 0 \<or> 1 < per"
  proof (cases "window \<le> 0 \<or> arr = []")
    case True
    then show ?thesis by (auto simp: percentile_doy_def)
  next
    case False
    with len have "sort (remdups doy) \<noteq> []"
      by (metis length_0_conv length_sort remdups_eq_nil_iff)
    then obtain d ds where ds: "sort (remdups doy) = d # ds"
      by (cases "sort (remdups doy)") auto
    have q: "quantile per a = Inl ValueError" for a
      using per by (auto simp: quantile_def)
    show ?thesis using False by (simp add: percentile_doy_def groupby_def ds q Let_def)
  qed
  have second: "windowed_run_count w x = Inl ContractViolation
      \<and> windowed_func w x = Inl ContractViolation" if "w \<le> 0"
    using that by (simp add: windowed_run_count_def windowed_func_def)
  from first second show ?thesis by blast
qed

theorem percentile_doy_rejects_witness:
  "percentile_doy [1, 2, 3] [Some 1, Some 2, Some 3] 3 (3 / 2) = Inl ValueError
   \<and> windowed_run_count 0 [True, True] = Inl ContractViolation
   \<and> windowed_func 0 [True, True] = Inl ContractViolation"
  using percentile_doy_rejects
    [of "[1, 2, 3]" "[Some 1, Some 2, Some 3]" "3 / 2" 3 0 "[True, True]"]
  by simp

section \<open>Conversions\<close>

text \<open>
  C7. \<open>saturation_vapor_pressure\<close> raises ValueError exactly for the method labels
  outside its eight known labels and returns an array for each known label;
  \<open>snowfall_approximation\<close> raises ValueError exactly for the labels other than
  \<open>binary\<close> and returns an array for \<open>binary\<close>. An unknown label gives the error
  and no result, whatever the other arguments are.
\<close>

theorem unknown_method_raises:
  "(saturation_vapor_pressure tas ice_thresh method = Inl ValueError)
     = (method \<notin> {''sonntag90'', ''SO90'', ''tetens30'', ''TE30'',
                    ''goffgratch46'', ''GG46'', ''wmo08'', ''WMO08''})
   \<and> (\<exists>e_sat. saturation_vapor_pressure tas ice_thresh method = Inr e_sat)
     = (method \<in> {''sonntag90'', ''SO90'', ''tetens30'', ''TE30'',
                  ''goffgratch46'', ''GG46'', ''wmo08'', ''WMO08''})
   \<and> (snowfall_approximation pr tas' thresh method' = Inl ValueError) = (method' \<noteq> ''binary'')
   \<and> (\<exists>prsn. snowfall_approximation pr tas' thresh method' = Inr prsn) = (method' = ''binary'')"
  by (simp add: saturation_vapor_pressure_def snowfall_approximation_def Let_def)

text \<open>
  C8. With the method \<open>binary\<close>, the snowfall approximation and the rain approximation
  both return an array, and their sum is the precipitation at every entry (a missing
  precipitation stays missing).
\<close>

theorem snowfall_plus_rain_is_precipitation:
  "\<exists>prsn prlp. snowfall_approximation pr tas thresh ''binary'' = Inr prsn
     \<and> rain_approximation pr tas thresh ''binary'' = Inr prlp
     \<and> (\<forall>i. lift2 (+) (prsn i) (prlp i) = pr i)"
proof -
  have "lift2 (+) (xr_where c x (Some 0)) (lift2 (-) x (xr_where c x (Some 0))) = x" for c x
    by (cases x) (simp_all add: xr_where_def)
  then show ?thesis
    by (simp add: snowfall_approximation_def rain_approximation_def)
qed

text \<open>
  C9. When \<open>relative_humidity\<close> returns with \<open>invalid_values\<close> set to \<open>clip\<close> or to
  \<open>mask\<close>, every entry of the result that is not NaN lies in \<open>[0, 100]\<close>.
\<close>

theorem relative_humidity_range:
  assumes "invalid_values = Some ''clip'' \<or> invalid_values = Some ''mask''"
    and "relative_humidity tas dtas huss ps ice_thresh method invalid_values = Inr rh"
    and "rh i = Some v"
  shows "0 \<le> v \<and> v \<le> 100"
proof -
  from assms(2) obtain raw where rh:
    "rh = (if invalid_values = Some ''clip'' then (\<lambda>i. clip (raw i) 0 100)
           else if invalid_values = Some ''mask'' then
             (\<lambda>i. xr_where (le (raw i) 100 \<and> ge (raw i) 0) (raw i) None)
           else raw)"
    unfolding relative_humidity_def by (auto split: sum.splits if_splits)
  from assms(1) show ?thesis
  proof
    assume c: "invalid_values = Some ''clip''"
    with rh assms(3) have "clip (raw i) 0 100 = Some v" by simp
    then show ?thesis by (cases "raw i") (auto simp: clip_def)
  next
    assume m: "invalid_values = Some ''mask''"
    with rh assms(3) have "xr_where (le (raw i) 100 \<and> ge (raw i) 0) (raw i) None = Some v"
      by simp
    then show ?thesis by (cases "raw i") (auto simp: xr_where_def split: if_splits)
  qed
qed

theorem relative_humidity_range_witness:
  "relative_humidity (\<lambda>i::nat. Some 300) (Some (\<lambda>i. Some 300)) None None None
       ''bohren98'' (Some ''clip'')
     = Inr (\<lambda>i. Some 100)
   \<and> (0::real) \<le> 100 \<and> (100::real) \<le> 100"
proof -
  have r: "relative_humidity (\<lambda>i::nat. Some 300) (Some (\<lambda>i. Some 300)) None None None
       ''bohren98'' (Some ''clip'')
     = Inr (\<lambda>i. Some 100)"
    by (simp add: relative_humidity_def bohren98_def divide_nan_def clip_def)
  from relative_humidity_range [where i = 0 and v = 100, OF _ r] r show ?thesis by simp
qed

lemma float_mod_range: "0 < m \<Longrightarrow> 0 \<le> float_mod x m \<and> float_mod x m < m"
proof -
  assume m: "0 < m"
  have a: "of_int \<lfloor>x / m\<rfloor> \<le> x / m" by simp
  have b: "x / m < of_int \<lfloor>x / m\<rfloor> + 1" by linarith
  from a have "of_int \<lfloor>x / m\<rfloor> * m \<le> x"
    by (simp only: pos_le_divide_eq [OF m])
  moreover from b have "x < (of_int \<lfloor>x / m\<rfloor> + 1) * m"
    by (simp only: pos_divide_less_eq [OF m])
  ultimately show ?thesis by (simp add: float_mod_def algebra_simps)
qed

lemma np_round_zero: "0 \<le> x \<Longrightarrow> (np_round x = 0) = (x \<le> 1 / 2)"
proof -
  assume x: "0 \<le> x"
  show ?thesis
  proof (cases "x < 1")
    case True
    with x have f: "\<lfloor>x\<rfloor> = 0" by linarith
    show ?thesis by (auto simp: np_round_def f Let_def)
  next
    case False
    then have f: "1 \<le> \<lfloor>x\<rfloor>" by linarith
    have "np_round x \<ge> \<lfloor>x\<rfloor>" by (simp add: np_round_def Let_def)
    with f False show ?thesis by auto
  qed
qed

text \<open>
  C10, as the claim states it: at every point where the wind speed is not below the
  threshold the direction lies in \<open>[0.5, 360]\<close>. Where a wind component is missing, the
  wind speed is NaN, which is not below the threshold, and the direction is NaN.
\<close>

theorem windfromdir_missing_component:
  "\<not> lt (fst (uas_vas_2_sfcwind (\<lambda>i::nat. None) (\<lambda>i. Some 1) (1 / 2)) 0) (1 / 2)
   \<and> snd (uas_vas_2_sfcwind (\<lambda>i::nat. None) (\<lambda>i. Some 1) (1 / 2)) 0 = None"
  by (simp add: uas_vas_2_sfcwind_def xr_where_def Let_def)

text \<open>
  C10, amended: the direction is 0 exactly at the points where the wind speed is below
  the threshold; at every other point where both wind components are present it lies in
  \<open>[0.5, 360]\<close>; there a wind from the north (no eastward component, a negative
  northward component) has the direction 360; and at every point where a wind component
  is NaN the direction is NaN.
\<close>

theorem windfromdir_calm_and_range:
  "((snd (uas_vas_2_sfcwind uas vas wind_thresh) i = Some 0)
      = lt (fst (uas_vas_2_sfcwind uas vas wind_thresh) i) wind_thresh)
   \<and> (uas i \<noteq> None \<and> vas i \<noteq> None
        \<and> \<not> lt (fst (uas_vas_2_sfcwind uas vas wind_thresh) i) wind_thresh
        \<longrightarrow> (\<exists>x. snd (uas_vas_2_sfcwind uas vas wind_thresh) i = Some x
                \<and> 1 / 2 \<le> x \<and> x \<le> 360))
   \<and> (uas i = Some 0 \<and> (\<exists>v. vas i = Some v \<and> v < 0)
        \<and> \<not> lt (fst (uas_vas_2_sfcwind uas vas wind_thresh) i) wind_thresh
        \<longrightarrow> snd (uas_vas_2_sfcwind uas vas wind_thresh) i = Some 360)
   \<and> (uas i = None \<or> vas i = None
        \<longrightarrow> snd (uas_vas_2_sfcwind uas vas wind_thresh) i = None)"
proof -
  define wind where "wind = lift2 hypot (uas i) (vas i)"
  define wd where "wd = map_option (\<lambda>w. float_mod (270 - w) 360)
     (map_option degrees (lift2 arctan2 (vas i) (uas i)))"
  define wd1 where
    "wd1 = xr_where (case wd of None \<Rightarrow> False | Some w \<Rightarrow> np_round w = 0) (Some 360) wd"
  have fst_eq: "fst (uas_vas_2_sfcwind uas vas wind_thresh) i = wind"
    by (simp add: uas_vas_2_sfcwind_def wind_def Let_def)
  have snd_eq: "snd (uas_vas_2_sfcwind uas vas wind_thresh) i
      = xr_where (lt wind wind_thresh) (Some 0) wd1"
    by (simp add: uas_vas_2_sfcwind_def wind_def wd_def wd1_def Let_def)
  have wd1_cases: "wd1 = None \<or> (\<exists>x. wd1 = Some x \<and> 1 / 2 < x \<and> x \<le> 360)"
  proof (cases wd)
    case None
    then show ?thesis by (simp add: wd1_def xr_where_def)
  next
    case (Some w)
    then have "0 \<le> w \<and> w < 360"
      using float_mod_range [of 360] by (auto simp: wd_def)
    with Some show ?thesis
      by (auto simp: wd1_def xr_where_def np_round_zero)
  qed
  have wd1_some: "uas i \<noteq> None \<Longrightarrow> vas i \<noteq> None \<Longrightarrow> wd1 \<noteq> None"
    by (auto simp: wd1_def wd_def xr_where_def)
  have north: "uas i = Some 0 \<Longrightarrow> vas i = Some v \<Longrightarrow> v < 0 \<Longrightarrow> wd1 = Some 360" for v
    by (simp add: wd1_def wd_def xr_where_def arctan2_def degrees_def float_mod_def np_round_def)
  have p1: "(xr_where (lt wind wind_thresh) (Some 0) wd1 = Some 0) = lt wind wind_thresh"
    using wd1_cases by (auto simp: xr_where_def)
  have p2: "uas i \<noteq> None \<and> vas i \<noteq> None \<and> \<not> lt wind wind_thresh
     \<longrightarrow> (\<exists>x. xr_where (lt wind wind_thresh) (Some 0) wd1 = Some x \<and> 1 / 2 \<le> x \<and> x \<le> 360)"
    using wd1_cases wd1_some by (auto simp: xr_where_def)
  have p3: "uas i = Some 0 \<and> (\<exists>v. vas i = Some v \<and> v < 0) \<and> \<not> lt wind wind_thresh
     \<longrightarrow> xr_where (lt wind wind_thresh) (Some 0) wd1 = Some 360"
    using north by (auto simp: xr_where_def)
  have p4: "uas i = None \<or> vas i = None
     \<longrightarrow> xr_where (lt wind wind_thresh) (Some 0) wd1 = None"
    by (auto simp: wind_def wd1_def wd_def xr_where_def)
  show ?thesis unfolding fst_eq snd_eq using p1 p2 p3 p4 by blast
qed

theorem windfromdir_calm_and_range_witness:
  "\<not> lt (fst (uas_vas_2_sfcwind (\<lambda>i::nat. if i = 0 then Some 0 else None)
                (\<lambda>i. Some (- 1)) (1 / 2)) 0) (1 / 2)
   \<and> snd (uas_vas_2_sfcwind (\<lambda>i::nat. if i = 0 then Some 0 else None)
            (\<lambda>i. Some (- 1)) (1 / 2)) 0 = Some 360
   \<and> snd (uas_vas_2_sfcwind (\<lambda>i::nat. if i = 0 then Some 0 else None)
            (\<lambda>i. Some (- 1)) (1 / 2)) 0 \<noteq> Some 0
   \<and> snd (uas_vas_2_sfcwind (\<lambda>i::nat. if i = 0 then Some 0 else None)
            (\<lambda>i. Some (- 1)) (1 / 2)) 1 = None"
proof -
  have w: "fst (uas_vas_2_sfcwind (\<lambda>i::nat. if i = 0 then Some 0 else None)
                  (\<lambda>i. Some (- 1)) (1 / 2)) 0 = Some 1"
    by (simp add: uas_vas_2_sfcwind_def hypot_def)
  show ?thesis
    using windfromdir_calm_and_range
        [of "\<lambda>i::nat. if i = 0 then Some 0 else None" "\<lambda>i. Some (- 1)" "1 / 2" 0]
      windfromdir_calm_and_range
        [of "\<lambda>i::nat. if i = 0 then Some 0 else None" "\<lambda>i. Some (- 1)" "1 / 2" 1]
      w
    by simp
qed

end
